theory Spec2Isabelle
  imports Main "HOL-Library.Word"
begin

unbundle bit_operations_syntax

section \<open>scp\_write.c: writing an .scp flux image to disk\<close>

text \<open>
  The development follows \<^verbatim>\<open>main\<close> of \<^verbatim>\<open>scp/scp_write.c\<close>. The C integer types are
  words of their width: \<^verbatim>\<open>uint16_t\<close> units of flux data, \<^verbatim>\<open>uint32_t\<close> header fields
  and times, and the \<^verbatim>\<open>uint64_t\<close> accumulator \<^verbatim>\<open>x\<close> and quotient \<^verbatim>\<open>y\<close>.
\<close>

type_synonym u8 = "8 word"
type_synonym u16 = "16 word"
type_synonym u32 = "32 word"
type_synonym u64 = "64 word"

subsection \<open>Byte order\<close>

text \<open>
  The host is little-endian (the x86 and ARM machines the tool is built for), so
  \<^verbatim>\<open>le32toh\<close> and \<^verbatim>\<open>htole32\<close> leave a value as it is and \<^verbatim>\<open>be16toh\<close> and
  \<^verbatim>\<open>htobe16\<close> exchange the two bytes of a 16-bit unit.
\<close>

definition bswap16 :: "u16 \<Rightarrow> u16" where
  "bswap16 w = push_bit 8 w OR drop_bit 8 w"

definition be16toh :: "u16 \<Rightarrow> u16" where
  "be16toh w = bswap16 w"

definition htobe16 :: "u16 \<Rightarrow> u16" where
  "htobe16 w = bswap16 w"

definition le32toh :: "u32 \<Rightarrow> u32" where
  "le32toh w = w"

definition htole32 :: "u32 \<Rightarrow> u32" where
  "htole32 w = w"

subsection \<open>Ways the run can stop\<close>

text \<open>
  The fatal exits of \<^verbatim>\<open>main\<close> (\<^verbatim>\<open>usage(1)\<close>, \<^verbatim>\<open>err\<close>, \<^verbatim>\<open>errx\<close>) and the three places
  where the C code has no defined behaviour: the division \<^verbatim>\<open>x / imtime\<close> with
  \<^verbatim>\<open>imtime = 0\<close>, a store past the end of \<^verbatim>\<open>odat\<close>, and a sample count that does
  not fit \<^verbatim>\<open>dat\<close>. The model stops at each of them with a value of its own.
\<close>

datatype failure =
    BadTrackRange       \<comment> \<open>\<^verbatim>\<open>warnx("Bad track range")\<close>, then \<^verbatim>\<open>usage(1)\<close>\<close>
  | OpenFailed          \<comment> \<open>\<^verbatim>\<open>err(1, "Error opening %s")\<close>\<close>
  | NotSCP              \<comment> \<open>\<^verbatim>\<open>errx(1, "%s: Not an SCP image")\<close>\<close>
  | TooShort            \<comment> \<open>\<^verbatim>\<open>errx(1, "%s is too short")\<close>\<close>
  | BadChecksum         \<comment> \<open>\<^verbatim>\<open>errx(1, "%s has bad checksum")\<close>\<close>
  | ShortRead           \<comment> \<open>\<^verbatim>\<open>read_exact\<close> finds fewer bytes than asked for\<close>
  | BadTrackSig u32     \<comment> \<open>\<^verbatim>\<open>errx(1, "%s: Track %u bad signature")\<close>\<close>
  | DivideByZero        \<comment> \<open>\<^verbatim>\<open>x / imtime\<close> with \<^verbatim>\<open>imtime = 0\<close>\<close>
  | OdatOverrun         \<comment> \<open>\<^verbatim>\<open>odat[j++] = ...\<close> with \<^verbatim>\<open>j\<close> past the array\<close>
  | DatOverrun          \<comment> \<open>more samples than \<^verbatim>\<open>dat\<close> holds\<close>
  | BadUsage            \<comment> \<open>\<^verbatim>\<open>usage(1)\<close> when \<^verbatim>\<open>argc != optind + 1\<close>\<close>

subsection \<open>The resampling loop (lines 186 to 201)\<close>

text \<open>
  \<^verbatim>\<open>uint16_t dat[256*1024/2], odat[256*1024/2]\<close>: both arrays hold 131072 units.
  \<^verbatim>\<open>odat\<close> is modelled by the list of the units stored so far, so that the output
  index \<^verbatim>\<open>j\<close> is its length.
\<close>

definition BUF_UNITS :: nat where
  "BUF_UNITS = 256 * 1024 div 2"

text \<open>
  Lines 195 to 198: \<^verbatim>\<open>while (y >= 0x10000u) { odat[j++] = 0; y -= 0x10000u; }\<close>
\<close>

function sentinels :: "u64 \<Rightarrow> u16 list \<Rightarrow> failure + (u64 \<times> u16 list)" where
  "sentinels y odat =
     (if y \<ge> 0x10000 then
        (if length odat < BUF_UNITS then sentinels (y - 0x10000) (odat @ [0])
         else Inl OdatOverrun)
      else Inr (y, odat))"
  by pat_completeness auto
termination
proof (relation "measure (\<lambda>(y, odat). unat y)")
  show "wf (measure (\<lambda>(y, odat). unat y))" by simp
next
  fix y :: u64 and odat :: "u16 list"
  assume "0x10000 \<le> y"
  then have "unat (y - 0x10000) < unat y"
    by (simp add: word_le_nat_alt unat_sub_if')
  then show "((y - 0x10000, odat @ [0]), (y, odat)) \<in> measure (\<lambda>(y, odat). unat y)"
    by simp
qed

declare sentinels.simps [simp del]

text \<open>
  Lines 194 to 200, one emission step: the quotient, the run of sentinel units, the
  final unit \<^verbatim>\<open>htobe16(y ?: 1)\<close> and the carry \<^verbatim>\<open>x %= imtime\<close>. The argument of
  \<^verbatim>\<open>htobe16\<close> is converted to \<^verbatim>\<open>uint16_t\<close>.
\<close>

definition emit :: "u32 \<Rightarrow> u64 \<Rightarrow> u16 list \<Rightarrow> failure + (u64 \<times> u16 list)" where
  "emit imtime x odat =
     (if imtime = 0 then Inl DivideByZero
      else case sentinels (x div ucast imtime) odat of
          Inl e \<Rightarrow> Inl e
        | Inr (y, odat') \<Rightarrow>
            if length odat' < BUF_UNITS
            then Inr (x mod ucast imtime,
                      odat' @ [htobe16 (ucast (if y \<noteq> 0 then y else 1))])
            else Inl OdatOverrun)"

text \<open>
  The loop over \<^verbatim>\<open>dat[0 .. nr_samples)\<close>, as a recursion over the samples left. The
  test \<^verbatim>\<open>i < nr_samples - 1\<close> is that a further sample follows.
\<close>

fun resample :: "u32 \<Rightarrow> u32 \<Rightarrow> u16 list \<Rightarrow> u64 \<Rightarrow> u16 list \<Rightarrow> failure + (u64 \<times> u16 list)" where
  "resample drvtime imtime [] x odat = Inr (x, odat)"
| "resample drvtime imtime (d # dat) x odat =
     (if d \<noteq> 0 then
        (case emit imtime (x + ucast (be16toh d) * ucast drvtime) odat of
           Inl e \<Rightarrow> Inl e
         | Inr (x', odat') \<Rightarrow> resample drvtime imtime dat x' odat')
      else if dat \<noteq> [] then
        resample drvtime imtime dat (x + 0x10000 * ucast drvtime) odat
      else
        (case emit imtime (x + 0x10000 * ucast drvtime) odat of
           Inl e \<Rightarrow> Inl e
         | Inr (x', odat') \<Rightarrow> resample drvtime imtime dat x' odat'))"

text \<open>
  The loop as \<^verbatim>\<open>main\<close> starts it for a track: \<^verbatim>\<open>x = 0\<close> and \<^verbatim>\<open>i = j = 0\<close>. The result
  is \<^verbatim>\<open>odat[0 .. j)\<close>, what \<^verbatim>\<open>scp_write_flux(scp, odat, j)\<close> is given.
\<close>

definition resample_track :: "u32 \<Rightarrow> u32 \<Rightarrow> u16 list \<Rightarrow> failure + u16 list" where
  "resample_track drvtime imtime dat =
     (case resample drvtime imtime dat 0 [] of
        Inl e \<Rightarrow> Inl e
      | Inr (x, odat) \<Rightarrow> Inr odat)"

text \<open>
  The time a stored unit stands for, in ticks: a unit 0 is the sentinel for 65536
  ticks, any other unit holds its value in big-endian order.
\<close>

definition unit_value :: "u16 \<Rightarrow> nat" where
  "unit_value u = unat (be16toh u)"

definition ticks :: "u16 \<Rightarrow> nat" where
  "ticks u = (if u = 0 then 65536 else unit_value u)"

definition total_ticks :: "u16 list \<Rightarrow> nat" where
  "total_ticks us = sum_list (map ticks us)"

text \<open>The units of a sequence that are not sentinels.\<close>

abbreviation nonzero :: "u16 list \<Rightarrow> u16 list" where
  "nonzero us \<equiv> filter (\<lambda>u. u \<noteq> 0) us"

subsection \<open>Declarations of scp.h and libdisk/util.h\<close>

text \<open>
  Modelled from the spec: \<^verbatim>\<open>scp.h\<close>, which declares \<^verbatim>\<open>struct disk_header\<close>,
  \<^verbatim>\<open>struct track_header\<close>, \<^verbatim>\<open>SCP_MAX_TRACKS\<close> and \<^verbatim>\<open>_FLAG_writable\<close>, is not among
  the sources. The records hold the fields \<^verbatim>\<open>main\<close> reads, with the widths of the
  container format (32-bit checksum, offsets, counts and durations; one byte for the
  flags and each track number, three bytes for a signature), and \<^verbatim>\<open>rev0\<close> is
  \<^verbatim>\<open>rev[0]\<close>.
\<close>

record disk_header =
  dhdr_sig :: "u8 list"
  flags :: u8
  checksum :: u32
  start_track :: u8
  end_track :: u8

record revolution =
  duration :: u32
  nr_samples :: u32
  offset :: u32

record track_header =
  thdr_sig :: "u8 list"
  tracknr :: u8
  rev0 :: revolution

text \<open>
  The two constants, the sizes of the two structs and the overlay of each struct on
  the bytes read into it are parameters of the model.
\<close>

record scp_h =
  SCP_MAX_TRACKS :: nat
  FLAG_writable :: nat
  sizeof_dhdr :: nat
  as_dhdr :: "u8 list \<Rightarrow> disk_header"
  sizeof_thdr :: nat
  as_thdr :: "u8 list \<Rightarrow> track_header"

text \<open>The string literals \<^verbatim>\<open>"SCP"\<close> and \<^verbatim>\<open>"TRK"\<close> that \<^verbatim>\<open>memcmp\<close> compares three bytes with.\<close>

definition SCP_sig :: "u8 list" where
  "SCP_sig = [0x53, 0x43, 0x50]"

definition TRK_sig :: "u8 list" where
  "TRK_sig = [0x54, 0x52, 0x4B]"

text \<open>
  Modelled from the spec: \<^verbatim>\<open>read_exact\<close> of \<^verbatim>\<open>libdisk/util.h\<close> is not among the
  sources. It reads \<^verbatim>\<open>n\<close> bytes at the file offset; a stream that ends before them
  is a fatal error.
\<close>

definition read_exact :: "u8 list \<Rightarrow> nat \<Rightarrow> nat \<Rightarrow> failure + u8 list" where
  "read_exact bytes pos n =
     (if pos + n \<le> length bytes then Inr (take n (drop pos bytes)) else Inl ShortRead)"

text \<open>
  An array of \<^verbatim>\<open>uint16_t\<close> or \<^verbatim>\<open>uint32_t\<close> as the little-endian host sees the bytes read
  into it.
\<close>

fun units_of :: "u8 list \<Rightarrow> u16 list" where
  "units_of (b0 # b1 # bs) = (ucast b0 OR push_bit 8 (ucast b1)) # units_of bs"
| "units_of bs = []"

fun words_of :: "u8 list \<Rightarrow> u32 list" where
  "words_of (b0 # b1 # b2 # b3 # bs) =
     (ucast b0 OR push_bit 8 (ucast b1) OR push_bit 16 (ucast b2) OR push_bit 24 (ucast b3))
       # words_of bs"
| "words_of bs = []"

text \<open>
  Modelled from the spec: an instance of the declarations of \<^verbatim>\<open>scp.h\<close>, to run the model
  on concrete files. It has the header layout of the SCP image format (signature at
  byte 0, track bounds at bytes 6 and 7, flags at byte 8, checksum at byte 12; in a
  track header the track number at byte 3, then duration, sample count and data offset
  of the first revolution), 168 tracks and the writable flag at bit 3. No theorem
  about the program depends on these values: each holds for every instance.
\<close>

definition scp_v1 :: scp_h where
  "scp_v1 =
     \<lparr>SCP_MAX_TRACKS = 168, FLAG_writable = 3, sizeof_dhdr = 16,
      as_dhdr = (\<lambda>raw.
        \<lparr>dhdr_sig = take 3 raw, flags = raw ! 8, checksum = hd (words_of (drop 12 raw)),
         start_track = raw ! 6, end_track = raw ! 7\<rparr>),
      sizeof_thdr = 16,
      as_thdr = (\<lambda>raw.
        \<lparr>thdr_sig = take 3 raw, tracknr = raw ! 3,
         rev0 = \<lparr>duration = hd (words_of (drop 4 raw)),
                 nr_samples = hd (words_of (drop 8 raw)),
                 offset = hd (words_of (drop 12 raw))\<rparr>\<rparr>)\<rparr>"

subsection \<open>The run and its input and output\<close>

text \<open>
  What the run does to the world, in order: the reads of the image file and the calls
  to the Supercard Pro. Console output is left out.
\<close>

datatype event =
    FileOpen
  | FileRead nat nat              \<comment> \<open>\<^verbatim>\<open>read_exact\<close>: file offset and byte count\<close>
  | ScpOpen
  | ScpPrintInfo
  | ScpSetParams
  | ScpSelectDrive
  | ScpSeekTrack u32
  | ScpReadFlux
  | ScpWriteFlux "u16 list"       \<comment> \<open>\<^verbatim>\<open>scp_write_flux(scp, odat, j)\<close>: the units \<^verbatim>\<open>odat[0 .. j)\<close>\<close>
  | ScpDeselectDrive
  | ScpClose

text \<open>
  The command line after \<^verbatim>\<open>getopt_long\<close>: the number of operands left
  (\<^verbatim>\<open>argc - optind\<close>), the track range and the quiet flag.
\<close>

record args =
  operands :: nat
  start_trk :: u32
  end_trk :: u32
  quiet :: bool

text \<open>
  The world: the bytes of the image file (\<open>None\<close> when it cannot be opened) and the
  index time of the drive that \<^verbatim>\<open>scp_read_flux\<close> reports.
\<close>

record env =
  image_file :: "u8 list option"
  index_time :: u32

type_synonym 'a run = "(failure \<times> event list) + 'a"

definition rd :: "u8 list \<Rightarrow> nat \<Rightarrow> nat \<Rightarrow> event list \<Rightarrow> (u8 list \<times> event list) run" where
  "rd bytes pos n io =
     (case read_exact bytes pos n of
        Inl e \<Rightarrow> Inl (e, io @ [FileRead pos n])
      | Inr buf \<Rightarrow> Inr (buf, io @ [FileRead pos n]))"

subsection \<open>The checksum (lines 125 to 142)\<close>

text \<open>\<^verbatim>\<open>while (sz--) csum += *p++;\<close> with \<^verbatim>\<open>uint32_t csum = 0\<close>.\<close>

definition csum_bytes :: "u8 list \<Rightarrow> u32" where
  "csum_bytes buf = fold (\<lambda>b csum. csum + ucast b) buf 0"

definition writable :: "scp_h \<Rightarrow> disk_header \<Rightarrow> bool" where
  "writable h dhdr \<longleftrightarrow> (ucast (flags dhdr) AND push_bit (FLAG_writable h) (1 :: u32)) \<noteq> 0"

text \<open>
  \<^verbatim>\<open>int sz = lseek(fd, 0, SEEK_END)\<close>: the size of the file, converted to a 32-bit
  \<^verbatim>\<open>int\<close> (the compilers the tool is built with reduce it modulo \<open>2^32\<close>).
\<close>

definition file_size_int :: "u8 list \<Rightarrow> int" where
  "file_size_int bytes = sint (word_of_nat (length bytes) :: 32 word)"

text \<open>
  The result is the file offset after the block and the reads it made: offset 16
  when the checksum was verified, the offset it was entered with otherwise.
\<close>

definition verify_checksum ::
  "scp_h \<Rightarrow> disk_header \<Rightarrow> u8 list \<Rightarrow> nat \<Rightarrow> event list \<Rightarrow> (nat \<times> event list) run" where
  "verify_checksum h dhdr bytes pos io =
     (if \<not> writable h dhdr \<and> checksum dhdr \<noteq> 0 then
        (let sz = file_size_int bytes in
         if sz < 16 then Inl (TooShort, io)
         else case rd bytes 16 (nat (sz - 16)) io of
             Inl e \<Rightarrow> Inl e
           | Inr (buf, io') \<Rightarrow>
               if csum_bytes buf \<noteq> le32toh (checksum dhdr) then Inl (BadChecksum, io')
               else Inr (16, io'))
      else Inr (pos, io))"

subsection \<open>One track (lines 163 to 204)\<close>

text \<open>
  \<^verbatim>\<open>read_exact(fd, dat, nr_samples * 2)\<close> and the loop over \<^verbatim>\<open>dat[0 .. nr_samples)\<close>
  stay inside \<^verbatim>\<open>dat\<close> only for \<^verbatim>\<open>nr_samples <= 131072\<close>; then the product, computed in
  32 bits, does not wrap. The table \<^verbatim>\<open>th_offs\<close> has \<^verbatim>\<open>end_trk + 1\<close> entries, so
  \<^verbatim>\<open>th_offs[trk]\<close> is inside it.
\<close>

definition track_iter ::
  "scp_h \<Rightarrow> u8 list \<Rightarrow> disk_header \<Rightarrow> u32 list \<Rightarrow> u32 \<Rightarrow> u32 \<Rightarrow> event list \<Rightarrow> event list run"
where
  "track_iter h bytes dhdr th_offs drvtime trk io =
     (if trk < ucast (start_track dhdr) \<or> trk > ucast (end_track dhdr) then Inr io
      else
        (let th_off = le32toh (th_offs ! unat trk) in
         if th_off = 0 then Inr io
         else
           (case rd bytes (unat th_off) (sizeof_thdr h) io of
              Inl e \<Rightarrow> Inl e
            | Inr (raw, io1) \<Rightarrow>
                (let thdr = as_thdr h raw in
                 if thdr_sig thdr \<noteq> TRK_sig \<or> ucast (tracknr thdr) \<noteq> trk
                 then Inl (BadTrackSig trk, io1)
                 else
                   (let imtime = htole32 (duration (rev0 thdr));
                        dat_off = th_off + le32toh (offset (rev0 thdr));
                        nr = le32toh (nr_samples (rev0 thdr))
                    in
                    if BUF_UNITS < unat nr then Inl (DatOverrun, io1)
                    else
                      (case rd bytes (unat dat_off) (unat (nr * 2)) io1 of
                         Inl e \<Rightarrow> Inl e
                       | Inr (raw_dat, io2) \<Rightarrow>
                           (case resample_track drvtime imtime (units_of raw_dat) of
                              Inl e \<Rightarrow> Inl (e, io2)
                            | Inr odat \<Rightarrow>
                                Inr (io2 @ [ScpSeekTrack trk, ScpWriteFlux odat]))))))))"

text \<open>
  \<^verbatim>\<open>for (trk = start_trk; trk <= end_trk; trk++)\<close>, over the track numbers left to
  visit. The run stops at the first track that fails.
\<close>

fun track_loop ::
  "scp_h \<Rightarrow> u8 list \<Rightarrow> disk_header \<Rightarrow> u32 list \<Rightarrow> u32 \<Rightarrow> nat list \<Rightarrow> event list \<Rightarrow> event list run"
where
  "track_loop h bytes dhdr th_offs drvtime [] io = Inr io"
| "track_loop h bytes dhdr th_offs drvtime (t # ts) io =
     (case track_iter h bytes dhdr th_offs drvtime (of_nat t) io of
        Inl e \<Rightarrow> Inl e
      | Inr io' \<Rightarrow> track_loop h bytes dhdr th_offs drvtime ts io')"

subsection \<open>main, from line 110\<close>

definition main :: "scp_h \<Rightarrow> args \<Rightarrow> env \<Rightarrow> event list run" where
  "main h a w =
     (if operands a \<noteq> 1 then Inl (BadUsage, [])
      else if SCP_MAX_TRACKS h \<le> unat (end_trk a) \<or> start_trk a > end_trk a
      then Inl (BadTrackRange, [])
      else
        (case image_file w of
           None \<Rightarrow> Inl (OpenFailed, [FileOpen])
         | Some bytes \<Rightarrow>
             (case rd bytes 0 (sizeof_dhdr h) [FileOpen] of
                Inl e \<Rightarrow> Inl e
              | Inr (raw, io1) \<Rightarrow>
                  (let dhdr = as_dhdr h raw in
                   if dhdr_sig dhdr \<noteq> SCP_sig then Inl (NotSCP, io1)
                   else
                     (case verify_checksum h dhdr bytes (sizeof_dhdr h) io1 of
                        Inl e \<Rightarrow> Inl e
                      | Inr (pos, io2) \<Rightarrow>
                          (case rd bytes pos ((unat (end_trk a) + 1) * 4) io2 of
                             Inl e \<Rightarrow> Inl e
                           | Inr (raw_offs, io3) \<Rightarrow>
                               (let th_offs = words_of raw_offs;
                                    io4 = io3 @ [ScpOpen]
                                            @ (if quiet a then [] else [ScpPrintInfo])
                                            @ [ScpSetParams, ScpSelectDrive,
                                               ScpSeekTrack 0, ScpReadFlux];
                                    drvtime = htole32 (index_time w)
                                in
                                (case track_loop h bytes dhdr th_offs drvtime
                                        [unat (start_trk a) ..< Suc (unat (end_trk a))] io4 of
                                   Inl e \<Rightarrow> Inl e
                                 | Inr io5 \<Rightarrow> Inr (io5 @ [ScpDeselectDrive, ScpClose])))))))))"

subsection \<open>The image file of the scenario of the specification\<close>

text \<open>
  A file in the layout of \<open>scp_v1\<close>: the header with tracks 0 to 1, no flag and
  checksum 0; the offset table with the entries 24 and 0 (track 1 is absent); at
  offset 24 the header of track 0 with duration 200000, three samples and data offset
  16; at offset 40 the samples 100, 0 and 50000 in big-endian order.
\<close>

definition scenario_image :: "u8 list" where
  "scenario_image =
     [0x53, 0x43, 0x50, 0, 0, 1, 0, 1, 0, 0, 0, 0, 0, 0, 0, 0,
      24, 0, 0, 0, 0, 0, 0, 0,
      0x54, 0x52, 0x4B, 0, 0x40, 0x0D, 0x03, 0, 3, 0, 0, 0, 16, 0, 0, 0,
      0, 100, 0, 0, 0xC3, 0x50]"

subsection \<open>An image file with a track of duration zero\<close>

text \<open>
  A file in the layout of \<open>scp_v1\<close>: the 16-byte header with signature \<^verbatim>\<open>SCP\<close>, tracks
  0 to 0, no flag and checksum 0; the offset table with the one entry 20; at offset 20
  the header of track 0 with signature \<^verbatim>\<open>TRK\<close>, duration 0, one sample and data offset
  16; at offset 36 the sample 100 in big-endian order.
\<close>

definition zero_duration_image :: "u8 list" where
  "zero_duration_image =
     [0x53, 0x43, 0x50, 0, 0, 1, 0, 0, 0, 0, 0, 0, 0, 0, 0, 0,
      20, 0, 0, 0,
      0x54, 0x52, 0x4B, 0, 0, 0, 0, 0, 1, 0, 0, 0, 16, 0, 0, 0,
      0, 100]"

section \<open>Properties\<close>

subsection \<open>Byte order\<close>

lemma bswap16_bswap16: "bswap16 (bswap16 w) = w"
  unfolding bswap16_def
  by (rule bit_word_eqI) (auto simp: bit_simps)

lemma bswap16_eq_0: "bswap16 w = 0 \<longleftrightarrow> w = 0"
proof
  assume "bswap16 w = 0"
  then have "bswap16 (bswap16 w) = bswap16 0" by simp
  then show "w = 0" by (simp add: bswap16_bswap16) (simp add: bswap16_def)
next
  assume "w = 0" then show "bswap16 w = 0" by (simp add: bswap16_def)
qed

lemma be16toh_htobe16: "be16toh (htobe16 w) = w"
  by (simp add: be16toh_def htobe16_def bswap16_bswap16)

lemma htobe16_eq_0: "htobe16 w = 0 \<longleftrightarrow> w = 0"
  by (simp add: htobe16_def bswap16_eq_0)

lemma be16toh_eq_0: "be16toh w = 0 \<longleftrightarrow> w = 0"
  by (simp add: be16toh_def bswap16_eq_0)

subsection \<open>The run of sentinel units and the emission step\<close>

lemma unat_sub_sentinel:
  fixes y :: u64
  assumes "0x10000 \<le> y"
  shows "unat (y - 0x10000) = unat y - 65536"
  using assms by (simp add: word_le_nat_alt unat_sub_if')

lemma sentinels_eq:
  "sentinels y odat =
     (if unat y div 65536 = 0 \<or> length odat + unat y div 65536 \<le> BUF_UNITS
      then Inr (y mod 0x10000, odat @ replicate (unat y div 65536) 0)
      else Inl OdatOverrun)"
proof (induction y odat rule: sentinels.induct)
  case (1 y odat)
  show ?case
  proof (cases "0x10000 \<le> y")
    case False
    then have lt: "unat y < 65536" by (simp add: word_le_nat_alt)
    then have "y mod 0x10000 = y"
      by (simp add: word_unat_eq_iff unat_mod)
    with False lt show ?thesis by (subst sentinels.simps) simp
  next
    case True
    then have ge: "65536 \<le> unat y" by (simp add: word_le_nat_alt)
    have u: "unat (y - 0x10000) = unat y - 65536" using True by (rule unat_sub_sentinel)
    have d: "unat y div 65536 = Suc ((unat y - 65536) div 65536)"
      using ge by (simp add: le_div_geq)
    have m: "(y - 0x10000) mod 0x10000 = y mod 0x10000"
      using ge u by (simp add: word_unat_eq_iff unat_mod le_mod_geq)
    show ?thesis
    proof (cases "length odat < BUF_UNITS")
      case False
      with True d show ?thesis by (subst sentinels.simps) simp
    next
      case lt: True
      have "sentinels y odat = sentinels (y - 0x10000) (odat @ [0])"
        using True lt by (subst sentinels.simps) simp
      also have "\<dots> = (if unat (y - 0x10000) div 65536 = 0 \<or>
             length (odat @ [0]) + unat (y - 0x10000) div 65536 \<le> BUF_UNITS
          then Inr ((y - 0x10000) mod 0x10000, (odat @ [0]) @ replicate (unat (y - 0x10000) div 65536) 0)
          else Inl OdatOverrun)"
        using 1 True lt by simp
      finally show ?thesis
        using lt by (auto simp: u d m replicate_app_Cons_same)
    qed
  qed
qed

lemma unat_ucast_imtime: "unat (ucast (w :: u32) :: u64) = unat w"
proof -
  have "unat w < 2 ^ 32" using unsigned_less [of w] by simp
  then have "unat w < 2 ^ 64" by simp
  then show ?thesis by (simp add: unsigned_ucast_eq take_bit_nat_eq_self)
qed

lemma emit_eq:
  assumes "imtime \<noteq> 0"
  shows "emit imtime x odat =
     (if length odat + unat (x div ucast imtime) div 65536 < BUF_UNITS
      then Inr (x mod ucast imtime,
                odat @ replicate (unat (x div ucast imtime) div 65536) 0 @
                  [htobe16 (ucast (if (x div ucast imtime) mod 0x10000 \<noteq> 0
                                   then (x div ucast imtime) mod 0x10000 else 1))])
      else Inl OdatOverrun)"
  using assms by (auto simp: emit_def sentinels_eq)

lemma unit_value_htobe16: "unit_value (htobe16 w) = unat w"
  by (simp add: unit_value_def be16toh_htobe16)

lemma unit_value_eq_0: "unit_value u = 0 \<longleftrightarrow> u = 0"
  by (simp add: unit_value_def unat_0_iff be16toh_eq_0)

lemma unit_value_less: "unit_value u < 65536"
  using unsigned_less [of "be16toh u"] by (simp add: unit_value_def)

lemma unat_ucast_low:
  fixes y :: u64
  shows "unat (ucast (y mod 0x10000) :: u16) = unat y mod 65536"
proof -
  have "unat (y mod 0x10000) = unat y mod 65536" by (simp add: unat_mod)
  moreover have "unat y mod 65536 < 2 ^ 16" by simp
  ultimately show ?thesis
    by (simp add: unsigned_ucast_eq take_bit_nat_eq_self)
qed

lemma final_unit_value:
  fixes y :: u64
  shows "unit_value (htobe16 (ucast (if y mod 0x10000 \<noteq> 0 then y mod 0x10000 else 1))) =
         (if unat y mod 65536 = 0 then 1 else unat y mod 65536)"
proof (cases "y mod 0x10000 = 0")
  case True
  then have "unat (y mod 0x10000) = 0" by simp
  then have "unat y mod 65536 = 0" by (simp add: unat_mod)
  with True show ?thesis by (simp add: unit_value_htobe16)
next
  case False
  then have "unat (y mod 0x10000) \<noteq> 0" by (simp add: unat_0_iff)
  then have "unat y mod 65536 \<noteq> 0" by (simp add: unat_mod)
  with False show ?thesis by (simp add: unit_value_htobe16 unat_ucast_low)
qed

lemma emit_shape:
  assumes "emit imtime x odat = Inr (x', odat')"
  shows "imtime \<noteq> 0"
    and "x' = x mod ucast imtime"
    and "length odat + unat (x div ucast imtime) div 65536 < BUF_UNITS"
    and "odat' = odat @ replicate (unat (x div ucast imtime) div 65536) 0 @
            [htobe16 (ucast (if (x div ucast imtime) mod 0x10000 \<noteq> 0
                             then (x div ucast imtime) mod 0x10000 else 1))]"
proof -
  show nz: "imtime \<noteq> 0" using assms by (auto simp: emit_def)
  note eq = emit_eq [OF nz, of x odat]
  show "length odat + unat (x div ucast imtime) div 65536 < BUF_UNITS"
    using assms eq by (simp split: if_splits)
  then show "x' = x mod ucast imtime"
    and "odat' = odat @ replicate (unat (x div ucast imtime) div 65536) 0 @
            [htobe16 (ucast (if (x div ucast imtime) mod 0x10000 \<noteq> 0
                             then (x div ucast imtime) mod 0x10000 else 1))]"
    using assms eq by simp_all
qed

lemma emit_last:
  assumes "emit imtime x odat = Inr (x', odat')"
  shows "odat' \<noteq> [] \<and> last odat' \<noteq> 0 \<and> length odat < length odat'"
proof -
  let ?y = "x div ucast imtime"
  let ?u = "htobe16 (ucast (if ?y mod 0x10000 \<noteq> 0 then ?y mod 0x10000 else 1))"
  have "unit_value ?u \<noteq> 0" by (simp only: final_unit_value) simp
  then have "?u \<noteq> 0" by (simp add: unit_value_eq_0)
  moreover have "odat' = odat @ replicate (unat ?y div 65536) 0 @ [?u]"
    using assms by (rule emit_shape(4))
  ultimately show ?thesis by simp
qed

lemma emit_carry:
  assumes "emit imtime x odat = Inr (x', odat')"
  shows "x' < ucast imtime"
proof -
  have nz: "imtime \<noteq> 0" and x': "x' = x mod ucast imtime"
    using assms by (rule emit_shape(1), rule emit_shape(2))
  have "unat imtime \<noteq> 0" using nz by (simp add: unat_0_iff)
  then have "unat x mod unat imtime < unat imtime" by simp
  then show ?thesis
    by (simp add: x' word_less_nat_alt unat_mod unat_ucast_imtime)
qed

lemma resample_last:
  assumes "resample drvtime imtime dat x odat = Inr (x', odat')" and "dat \<noteq> []"
  shows "odat' \<noteq> [] \<and> last odat' \<noteq> 0 \<and> x' < ucast imtime"
  using assms
proof (induction dat arbitrary: x odat)
  case Nil
  then show ?case by simp
next
  case (Cons d dat)
  show ?case
  proof (cases "dat = []")
    case True
    let ?x = "if d \<noteq> 0 then x + ucast (be16toh d) * ucast drvtime
              else x + 0x10000 * ucast drvtime"
    from Cons.prems(1) True have "emit imtime ?x odat = Inr (x', odat')"
      by (auto split: sum.splits if_splits)
    then show ?thesis using emit_last emit_carry by blast
  next
    case False
    from Cons.prems(1) False obtain x1 odat1
      where "resample drvtime imtime dat x1 odat1 = Inr (x', odat')"
      by (auto split: sum.splits if_splits)
    then show ?thesis using Cons.IH False by blast
  qed
qed

text \<open>
  C2: when the quotient \<open>y = x / imtime\<close> of an emission step is \<open>k * 65536 + r\<close> with
  \<open>r < 65536\<close> (and the units fit \<^verbatim>\<open>odat\<close>), the step stores exactly \<open>k\<close> sentinel units
  0 and then one unit of value \<open>r\<close>, or of value 1 when \<open>r = 0\<close>. Only that final unit
  is raised from 0 to 1; the \<open>k\<close> sentinel units stay 0.
\<close>

theorem emit_sentinel_run:
  assumes "imtime \<noteq> 0"
    and "unat (x div ucast imtime) = k * 65536 + r"
    and "r < 65536"
    and "length odat + k < BUF_UNITS"
  shows "emit imtime x odat =
           Inr (x mod ucast imtime,
                odat @ replicate k 0 @ [htobe16 (of_nat (if r = 0 then 1 else r))])
         \<and> unit_value (htobe16 (of_nat (if r = 0 then 1 else r))) = (if r = 0 then 1 else r)"
proof -
  let ?y = "x div ucast imtime"
  have k: "unat ?y div 65536 = k" and r: "unat ?y mod 65536 = r"
    using assms(2,3) by simp_all
  have u: "(ucast (if ?y mod 0x10000 \<noteq> 0 then ?y mod 0x10000 else 1) :: u16) =
           of_nat (if r = 0 then 1 else r)"
  proof (cases "r = 0")
    case True
    then have "unat (?y mod 0x10000) = 0" using r by (simp add: unat_mod)
    then have "?y mod 0x10000 = 0" by (simp only: unat_0_iff)
    with True show ?thesis by simp
  next
    case False
    then have "unat (?y mod 0x10000) \<noteq> 0" using r by (simp add: unat_mod)
    then have nz: "?y mod 0x10000 \<noteq> 0" by (simp only: unat_0_iff) simp
    have "unat (ucast (?y mod 0x10000) :: u16) = r"
      using r by (simp only: unat_ucast_low)
    then have "(ucast (?y mod 0x10000) :: u16) = of_nat r"
      using assms(3) by (simp add: word_unat_eq_iff unat_of_nat)
    with False nz show ?thesis by simp
  qed
  have "unat (of_nat (if r = 0 then 1 else r) :: u16) = (if r = 0 then 1 else r)"
    using assms(3) by (simp add: unat_of_nat)
  then have "unit_value (htobe16 (of_nat (if r = 0 then 1 else r))) = (if r = 0 then 1 else r)"
    by (simp only: unit_value_htobe16)
  moreover have "emit imtime x odat =
      Inr (x mod ucast imtime, odat @ replicate k 0 @ [htobe16 (of_nat (if r = 0 then 1 else r))])"
    using assms(4) by (simp only: emit_eq [OF assms(1)] k u) simp
  ultimately show ?thesis by simp
qed

theorem emit_sentinel_run_witness:
  "emit 100 13107200 [7] = Inr (0, [7, 0, 0, htobe16 1]) \<and> unit_value (htobe16 1) = 1"
proof -
  have a: "(100::u32) \<noteq> 0" by simp
  have b: "unat ((13107200::u64) div ucast (100::u32)) = 2 * 65536 + 0" by simp
  have c: "(0::nat) < 65536" by simp
  have d: "length [7::u16] + 2 < BUF_UNITS" by (simp add: BUF_UNITS_def)
  have e: "replicate 2 (0::u16) = [0, 0]" by (simp add: numeral_2_eq_2)
  have f: "(13107200::u64) mod ucast (100::u32) = 0" by simp
  show ?thesis using emit_sentinel_run [OF a b c d] by (simp add: e f)
qed

lemma resample_track_Inr:
  assumes "resample_track drvtime imtime dat = Inr out"
  obtains x where "resample drvtime imtime dat 0 [] = Inr (x, out)"
  using assms by (auto simp: resample_track_def split: sum.splits)

text \<open>
  C9: an emission step that returns leaves the accumulator below \<^verbatim>\<open>imtime\<close>, so the
  remainder carried into the next sample is in \<open>[0, imtime)\<close>; the loop over a
  non-empty sample sequence ends with an emission step, and so with \<open>x < imtime\<close>.
\<close>

theorem carry_below_imtime:
  "(emit imtime x odat = Inr (x', odat') \<longrightarrow> unat x' < unat imtime) \<and>
   (dat \<noteq> [] \<and> resample drvtime imtime dat x0 odat0 = Inr (x1, odat1)
      \<longrightarrow> unat x1 < unat imtime)"
proof (intro conjI impI)
  assume "emit imtime x odat = Inr (x', odat')"
  then have "x' < ucast imtime" by (rule emit_carry)
  then show "unat x' < unat imtime"
    by (simp add: word_less_nat_alt unat_ucast_imtime)
next
  assume "dat \<noteq> [] \<and> resample drvtime imtime dat x0 odat0 = Inr (x1, odat1)"
  then have "x1 < ucast imtime" using resample_last by blast
  then show "unat x1 < unat imtime"
    by (simp add: word_less_nat_alt unat_ucast_imtime)
qed

lemma emit_example: "emit 200000 10000007 [] = Inr (7, [htobe16 50])"
  by (simp add: emit_def sentinels.simps BUF_UNITS_def)

lemma resample_example:
  "resample 100000 200000 [htobe16 100] 7 [] = Inr (7, [htobe16 50])"
proof -
  have "htobe16 100 \<noteq> 0" by (simp add: htobe16_eq_0)
  moreover have "7 + ucast (be16toh (htobe16 100)) * ucast (100000 :: u32) = (10000007 :: u64)"
    by (simp add: be16toh_htobe16)
  ultimately show ?thesis by (simp add: emit_example)
qed

theorem carry_below_imtime_witness:
  "emit 200000 10000007 [] = Inr (7, [htobe16 50]) \<and> unat (7 :: u64) < unat (200000 :: u32) \<and>
   [htobe16 100] \<noteq> [] \<and> resample 100000 200000 [htobe16 100] 7 [] = Inr (7, [htobe16 50])"
  using carry_below_imtime [of 200000 10000007 "[]" 7 "[htobe16 50]" "[htobe16 100]" 100000 7 "[]" 7 "[htobe16 50]"]
    emit_example resample_example
  by simp

subsection \<open>The resampling loop on the scenario of the specification\<close>

lemma scenario_run:
  "resample 100000 200000 [htobe16 100, 0, htobe16 50000] 0 [] =
     Inr (0, [htobe16 50, htobe16 57768])"
proof -
  have nz: "htobe16 100 \<noteq> 0" "htobe16 50000 \<noteq> 0" by (simp_all add: htobe16_eq_0)
  have e1: "emit 200000 10000000 [] = Inr (0, [htobe16 50])"
    by (simp add: emit_def sentinels.simps BUF_UNITS_def)
  have e2: "emit 200000 11553600000 [htobe16 50] = Inr (0, [htobe16 50, htobe16 57768])"
    by (simp add: emit_def sentinels.simps BUF_UNITS_def)
  show ?thesis
    by (simp add: nz be16toh_htobe16 e1 e2)
qed

lemma scenario_track:
  "resample_track 100000 200000 [htobe16 100, 0, htobe16 50000] =
     Inr [htobe16 50, htobe16 57768]"
  by (simp only: resample_track_def scenario_run sum.case prod.case)

lemma scenario_values:
  "unit_value (htobe16 50) = 50" "unit_value (htobe16 57768) = 57768"
  "htobe16 50 \<noteq> 0" "htobe16 57768 \<noteq> 0"
  by (simp_all add: unit_value_htobe16 htobe16_eq_0)

subsection \<open>Which units of the output are sentinels\<close>

lemma emit_nonzero:
  assumes "emit imtime x odat = Inr (x', odat')"
  shows "length (nonzero odat') = Suc (length (nonzero odat))"
proof -
  let ?y = "x div ucast imtime"
  let ?u = "htobe16 (ucast (if ?y mod 0x10000 \<noteq> 0 then ?y mod 0x10000 else 1))"
  have "unit_value ?u \<noteq> 0" by (simp only: final_unit_value) simp
  then have "?u \<noteq> 0" by (simp add: unit_value_eq_0)
  moreover have "odat' = odat @ replicate (unat ?y div 65536) 0 @ [?u]"
    using assms by (rule emit_shape(4))
  ultimately show ?thesis by simp
qed

lemma resample_nonzero:
  assumes "resample drvtime imtime dat x odat = Inr (x', odat')"
  shows "length (nonzero odat') =
         length (nonzero odat) + length (nonzero dat) + (if dat \<noteq> [] \<and> last dat = 0 then 1 else 0)"
  using assms
proof (induction dat arbitrary: x odat)
  case Nil
  then show ?case by simp
next
  case (Cons d dat)
  show ?case
  proof (cases "d \<noteq> 0")
    case True
    with Cons.prems obtain x1 odat1
      where e: "emit imtime (x + ucast (be16toh d) * ucast drvtime) odat = Inr (x1, odat1)"
        and r: "resample drvtime imtime dat x1 odat1 = Inr (x', odat')"
      by (auto split: sum.splits)
    show ?thesis
      using Cons.IH [OF r] emit_nonzero [OF e] True by auto
  next
    case False
    show ?thesis
    proof (cases "dat = []")
      case True
      with Cons.prems False
      have "emit imtime (x + 0x10000 * ucast drvtime) odat = Inr (x', odat')"
        by (auto split: sum.splits)
      then show ?thesis using emit_nonzero False True by simp
    next
      case ne: False
      with Cons.prems False
      have "resample drvtime imtime dat (x + 0x10000 * ucast drvtime) odat = Inr (x', odat')"
        by simp
      then show ?thesis using Cons.IH False ne by simp
    qed
  qed
qed

text \<open>
  C6: the units an emission step stores are sentinel units 0 followed by one final
  unit, the one that stands for the interval, and the value of that final unit is in
  \<open>[1, 65535]\<close>, never 0. Every unit of the output of the loop is the sentinel 0 or
  a value in \<open>[1, 65535]\<close>, and the output has exactly one unit that is not a sentinel
  for each interval of the input: one for each sample that is not 0, and one more when
  the last sample is a sentinel.
\<close>

theorem emitted_units_in_range:
  "(emit imtime x odat = Inr (x', odat') \<longrightarrow>
      (\<exists>k u. odat' = odat @ replicate k 0 @ [u] \<and> 1 \<le> unit_value u \<and> unit_value u \<le> 65535)) \<and>
   (resample_track drvtime imtime dat = Inr out \<longrightarrow>
      (\<forall>u \<in> set out. u = 0 \<or> (1 \<le> unit_value u \<and> unit_value u \<le> 65535)) \<and>
      length (nonzero out) =
        length (nonzero dat) + (if dat \<noteq> [] \<and> last dat = 0 then 1 else 0))"
proof (intro conjI impI)
  assume e: "emit imtime x odat = Inr (x', odat')"
  let ?y = "x div ucast imtime"
  let ?u = "htobe16 (ucast (if ?y mod 0x10000 \<noteq> 0 then ?y mod 0x10000 else 1))"
  have "odat' = odat @ replicate (unat ?y div 65536) 0 @ [?u]"
    using e by (rule emit_shape(4))
  moreover have "1 \<le> unit_value ?u" by (simp only: final_unit_value) simp
  moreover have "unit_value ?u \<le> 65535" using unit_value_less [of ?u] by simp
  ultimately show "\<exists>k u. odat' = odat @ replicate k 0 @ [u] \<and> 1 \<le> unit_value u \<and> unit_value u \<le> 65535"
    by blast
next
  assume "resample_track drvtime imtime dat = Inr out"
  show "\<forall>u \<in> set out. u = 0 \<or> (1 \<le> unit_value u \<and> unit_value u \<le> 65535)"
  proof
    fix u assume "u \<in> set out"
    show "u = 0 \<or> (1 \<le> unit_value u \<and> unit_value u \<le> 65535)"
      using unit_value_less [of u] unit_value_eq_0 [of u] by (cases "u = 0") auto
  qed
next
  assume "resample_track drvtime imtime dat = Inr out"
  then obtain x1 where "resample drvtime imtime dat 0 [] = Inr (x1, out)"
    by (rule resample_track_Inr)
  then show "length (nonzero out) =
        length (nonzero dat) + (if dat \<noteq> [] \<and> last dat = 0 then 1 else 0)"
    using resample_nonzero by fastforce
qed

theorem emitted_units_in_range_witness:
  "emit 200000 11553600000 [htobe16 50] = Inr (0, [htobe16 50, htobe16 57768]) \<and>
   (\<exists>k u. [htobe16 50, htobe16 57768] = [htobe16 50] @ replicate k 0 @ [u] \<and>
       1 \<le> unit_value u \<and> unit_value u \<le> 65535) \<and>
   resample_track 100000 200000 [htobe16 100, 0, htobe16 50000] = Inr [htobe16 50, htobe16 57768] \<and>
   length (nonzero [htobe16 50, htobe16 57768]) = 2"
proof -
  have e: "emit 200000 11553600000 [htobe16 50] = Inr (0, [htobe16 50, htobe16 57768])"
    by (simp add: emit_def sentinels.simps BUF_UNITS_def)
  note t = emitted_units_in_range [of 200000 11553600000 "[htobe16 50]" 0 "[htobe16 50, htobe16 57768]"
      100000 "[htobe16 100, 0, htobe16 50000]" "[htobe16 50, htobe16 57768]"]
  have "\<exists>k u. [htobe16 50, htobe16 57768] = [htobe16 50] @ replicate k 0 @ [u] \<and>
       1 \<le> unit_value u \<and> unit_value u \<le> 65535"
    using t e by blast
  moreover have "length (nonzero [htobe16 50, htobe16 57768]) = 2"
    using t scenario_track by (simp add: htobe16_eq_0)
  ultimately show ?thesis using e scenario_track by simp
qed

subsection \<open>The time of the output against the time of the input\<close>

lemma total_ticks_append: "total_ticks (us @ vs) = total_ticks us + total_ticks vs"
  by (simp add: total_ticks_def)

lemma total_ticks_sentinels: "total_ticks (replicate k 0) = k * 65536"
  by (induction k) (simp_all add: total_ticks_def ticks_def)

lemma total_ticks_single: "total_ticks [u] = ticks u"
  by (simp add: total_ticks_def)

lemma total_ticks_Cons: "total_ticks (u # us) = ticks u + total_ticks us"
  by (simp add: total_ticks_def)

lemma ticks_le: "ticks u \<le> 65536"
  using unit_value_less [of u] by (simp add: ticks_def)

lemma unat_ucast_unit: "unat (ucast (w :: u16) :: u64) = unat w"
proof -
  have "unat w < 2 ^ 16" using unsigned_less [of w] by simp
  then have "unat w < 2 ^ 64" by simp
  then show ?thesis by (simp add: unsigned_ucast_eq take_bit_nat_eq_self)
qed

text \<open>One emission step: the time stored is the quotient, and one tick more when the
  final unit was raised from 0 to 1.\<close>

lemma emit_total:
  assumes "emit imtime x odat = Inr (x', odat')"
  shows "\<exists>c \<le> 1. total_ticks odat' * unat imtime + unat x' =
                  total_ticks odat * unat imtime + unat x + c * unat imtime"
proof -
  let ?y = "x div ucast imtime"
  let ?u = "htobe16 (ucast (if ?y mod 0x10000 \<noteq> 0 then ?y mod 0x10000 else 1))"
  let ?q = "unat x div unat imtime"
  define c :: nat where "c = (if ?q mod 65536 = 0 then 1 else 0)"
  have y: "unat ?y = ?q" by (simp add: unat_div unat_ucast_imtime)
  have x': "unat x' = unat x mod unat imtime"
    using emit_shape(2) [OF assms] by (simp add: unat_mod unat_ucast_imtime)
  have uv: "unit_value ?u = (if ?q mod 65536 = 0 then 1 else ?q mod 65536)"
    by (simp only: final_unit_value y)
  then have "unit_value ?u \<noteq> 0" by simp
  then have "?u \<noteq> 0" by (simp add: unit_value_eq_0)
  then have tu: "ticks ?u = ?q mod 65536 + c"
    using uv by (simp add: ticks_def c_def)
  have "odat' = odat @ replicate (?q div 65536) 0 @ [?u]"
    using emit_shape(4) [OF assms] by (simp only: y)
  then have "total_ticks odat' = total_ticks odat + (?q div 65536) * 65536 + (?q mod 65536 + c)"
    by (simp add: total_ticks_append total_ticks_sentinels total_ticks_single tu)
  then have "total_ticks odat' = total_ticks odat + ?q + c" by simp
  then have "total_ticks odat' * unat imtime + unat x' =
             total_ticks odat * unat imtime + (?q * unat imtime + unat x mod unat imtime)
               + c * unat imtime"
    by (simp add: x' algebra_simps)
  then have "total_ticks odat' * unat imtime + unat x' =
             total_ticks odat * unat imtime + unat x + c * unat imtime"
    by simp
  moreover have "c \<le> 1" by (simp add: c_def)
  ultimately show ?thesis by blast
qed

lemma emit_carry_le:
  assumes "emit imtime x odat = Inr (x', odat')"
  shows "unat x' \<le> unat x"
  using emit_shape(2) [OF assms] by (simp add: unat_mod unat_ucast_imtime)

text \<open>The additions to the accumulator, when the sum fits 64 bits.\<close>

lemma unat_accumulate:
  fixes x :: u64 and v :: u64 and drvtime :: u32
  assumes "unat x + unat v * unat drvtime < 2 ^ 64"
  shows "unat (x + v * ucast drvtime) = unat x + unat v * unat drvtime"
proof -
  have "unat v * unat (ucast drvtime :: u64) < 2 ^ 64"
    using assms by (simp add: unat_ucast_imtime)
  then have m: "unat (v * ucast drvtime) = unat v * unat drvtime"
    using unat_mult_lem [of v "ucast drvtime :: u64"] by (simp add: unat_ucast_imtime)
  then have "unat x + unat (v * ucast drvtime) < 2 ^ 64" using assms by simp
  then have "unat (x + v * ucast drvtime) = unat x + unat (v * ucast drvtime)"
    using unat_add_lem [of x "v * ucast drvtime"] by simp
  with m show ?thesis by simp
qed

lemma resample_total:
  assumes "resample drvtime imtime dat x odat = Inr (x', odat')"
    and "unat x + total_ticks dat * unat drvtime < 2 ^ 64"
  shows "\<exists>c. length odat + c \<le> length odat' \<and>
             total_ticks odat' * unat imtime + unat x' =
             total_ticks odat * unat imtime + unat x + total_ticks dat * unat drvtime
               + c * unat imtime"
  using assms
proof (induction dat arbitrary: x odat)
  case Nil
  then have "x' = x" "odat' = odat" by simp_all
  then show ?case by (simp add: total_ticks_def)
next
  case (Cons d dat)
  let ?v = "if d \<noteq> 0 then ucast (be16toh d) else (0x10000 :: u64)"
  let ?x1 = "x + ?v * ucast drvtime"
  have v: "unat ?v = ticks d"
    by (simp add: ticks_def unit_value_def unat_ucast_unit)
  have fit: "unat x + ticks d * unat drvtime + total_ticks dat * unat drvtime < 2 ^ 64"
    using Cons.prems(2) by (simp add: total_ticks_Cons algebra_simps)
  then have "unat x + unat ?v * unat drvtime < 2 ^ 64" by (simp only: v)
  then have "unat ?x1 = unat x + unat ?v * unat drvtime" by (rule unat_accumulate)
  then have x1: "unat ?x1 = unat x + ticks d * unat drvtime" by (simp only: v)
  show ?case
  proof (cases "d = 0 \<and> dat \<noteq> []")
    case True
    then have "resample drvtime imtime dat ?x1 odat = Inr (x', odat')"
      using Cons.prems(1) by simp
    moreover have "unat ?x1 + total_ticks dat * unat drvtime < 2 ^ 64"
      using fit x1 by simp
    ultimately obtain c where "length odat + c \<le> length odat'"
      and "total_ticks odat' * unat imtime + unat x' =
           total_ticks odat * unat imtime + unat ?x1 + total_ticks dat * unat drvtime
             + c * unat imtime"
      using Cons.IH by blast
    then show ?thesis
      using x1 by (auto simp: total_ticks_Cons algebra_simps)
  next
    case False
    then obtain x2 odat2
      where e: "emit imtime ?x1 odat = Inr (x2, odat2)"
        and r: "resample drvtime imtime dat x2 odat2 = Inr (x', odat')"
      using Cons.prems(1) by (auto split: sum.splits if_splits)
    obtain c1 where c1: "c1 \<le> 1"
      and t1: "total_ticks odat2 * unat imtime + unat x2 =
               total_ticks odat * unat imtime + unat ?x1 + c1 * unat imtime"
      using emit_total [OF e] by blast
    have len: "length odat < length odat2" using emit_last [OF e] by simp
    have "unat x2 \<le> unat ?x1" using e by (rule emit_carry_le)
    then have "unat x2 + total_ticks dat * unat drvtime < 2 ^ 64"
      using fit x1 by simp
    then obtain c2 where l2: "length odat2 + c2 \<le> length odat'"
      and t2: "total_ticks odat' * unat imtime + unat x' =
               total_ticks odat2 * unat imtime + unat x2 + total_ticks dat * unat drvtime
                 + c2 * unat imtime"
      using Cons.IH [OF r] by blast
    have "length odat + (c1 + c2) \<le> length odat'" using c1 len l2 by simp
    moreover have "total_ticks odat' * unat imtime + unat x' =
        total_ticks odat * unat imtime + unat x + total_ticks (d # dat) * unat drvtime
          + (c1 + c2) * unat imtime"
      using t1 t2 x1 by (simp add: total_ticks_Cons algebra_simps)
    ultimately show ?thesis by blast
  qed
qed

text \<open>
  C1, as amended: when the scaled time of the input fits the 64-bit accumulator
  (\<open>total input ticks * drvtime < 2^64\<close>), the time of the output, each sentinel
  counted as 65536 ticks, is the time of the input multiplied by \<open>drvtime / imtime\<close>
  within one tick for each unit of the output: the two differ by less than
  \<open>length out\<close> ticks however long the sequence is, and the output is never a whole
  tick short.
\<close>

theorem resample_conserves_time:
  assumes "resample_track drvtime imtime dat = Inr out"
    and "total_ticks dat * unat drvtime < 2 ^ 64"
  shows "\<bar>int (total_ticks out) * int (unat imtime) - int (total_ticks dat) * int (unat drvtime)\<bar>
           \<le> int (length out) * int (unat imtime)
         \<and> (dat \<noteq> [] \<longrightarrow>
              int (total_ticks dat) * int (unat drvtime)
                < int (total_ticks out) * int (unat imtime) + int (unat imtime))"
proof -
  obtain x' where r: "resample drvtime imtime dat 0 [] = Inr (x', out)"
    using assms(1) by (rule resample_track_Inr)
  obtain c where c: "c \<le> length out"
    and t: "total_ticks out * unat imtime + unat x' =
            total_ticks dat * unat drvtime + c * unat imtime"
    using resample_total [OF r] assms(2) by (auto simp: total_ticks_def)
  define P B Q R where "P = total_ticks out * unat imtime"
    and "B = total_ticks dat * unat drvtime"
    and "Q = c * unat imtime" and "R = length out * unat imtime"
  have PB: "P + unat x' = B + Q" using t by (simp add: P_def B_def Q_def)
  have QR: "Q \<le> R" using c by (simp add: Q_def R_def)
  have goal_eq: "int (total_ticks out) * int (unat imtime) = int P"
    "int (total_ticks dat) * int (unat drvtime) = int B"
    "int (length out) * int (unat imtime) = int R"
    by (simp_all add: P_def B_def R_def)
  show ?thesis
  proof (cases "dat = []")
    case True
    then have "out = []" "x' = 0" using r by simp_all
    with True show ?thesis by (simp add: total_ticks_def)
  next
    case False
    then have "out \<noteq> []" and "x' < ucast imtime"
      using resample_last [OF r] by simp_all
    then have x: "unat x' < unat imtime" and "1 \<le> length out"
      by (simp_all add: word_less_nat_alt unat_ucast_imtime Suc_leI)
    then have "unat imtime \<le> R" by (simp add: R_def)
    with PB QR x have "\<bar>int P - int B\<bar> \<le> int R \<and> int B < int P + int (unat imtime)"
      by linarith
    then show ?thesis unfolding goal_eq by simp
  qed
qed

lemma scenario_input_ticks:
  "total_ticks [htobe16 100, 0, htobe16 50000] = 115636"
  by (simp add: total_ticks_def ticks_def unit_value_htobe16 htobe16_eq_0)

lemma scenario_output_ticks:
  "total_ticks [htobe16 50, htobe16 57768] = 57818"
  by (simp add: total_ticks_def ticks_def unit_value_htobe16 htobe16_eq_0)

theorem resample_conserves_time_witness:
  "resample_track 100000 200000 [htobe16 100, 0, htobe16 50000] = Inr [htobe16 50, htobe16 57768] \<and>
   total_ticks [htobe16 100, 0, htobe16 50000] * unat (100000 :: u32) < 2 ^ 64 \<and>
   \<bar>int (total_ticks [htobe16 50, htobe16 57768]) * int (unat (200000 :: u32))
      - int (total_ticks [htobe16 100, 0, htobe16 50000]) * int (unat (100000 :: u32))\<bar>
     \<le> int (length [htobe16 50, htobe16 57768]) * int (unat (200000 :: u32))"
proof -
  have fit: "total_ticks [htobe16 100, 0, htobe16 50000] * unat (100000 :: u32) < 2 ^ 64"
    by (simp add: scenario_input_ticks)
  show ?thesis
    using resample_conserves_time [OF scenario_track fit] scenario_track fit by blast
qed

text \<open>A run of sentinel samples that ends the sequence is accumulated into one
  emission step.\<close>

lemma resample_sentinel_run:
  "resample drvtime imtime (replicate (Suc n) 0) x odat =
     emit imtime (x + of_nat (Suc n) * (0x10000 * ucast drvtime)) odat"
proof (induction n arbitrary: x)
  case 0
  show ?case by (cases "emit imtime (x + 0x10000 * ucast drvtime) odat") auto
next
  case (Suc n)
  have "resample drvtime imtime (replicate (Suc (Suc n)) 0) x odat =
        resample drvtime imtime (replicate (Suc n) 0) (x + 0x10000 * ucast drvtime) odat"
    by simp
  also have "\<dots> = emit imtime
      (x + 0x10000 * ucast drvtime + of_nat (Suc n) * (0x10000 * ucast drvtime)) odat"
    by (rule Suc.IH)
  also have "x + 0x10000 * ucast drvtime + of_nat (Suc n) * (0x10000 * ucast drvtime) =
             x + of_nat (Suc (Suc n)) * (0x10000 * ucast drvtime)"
    by (simp add: algebra_simps)
  finally show ?case .
qed

lemma wrapped_run:
  "resample_track 0x80000000 0x80000000 (replicate 131072 0) = Inr [htobe16 1]"
proof -
  have n: "(131072 :: nat) = Suc 131071" by simp
  have x: "(0 :: u64) + of_nat (Suc 131071) * (0x10000 * ucast (0x80000000 :: u32)) = 0"
    by simp
  have e: "emit 0x80000000 0 [] = Inr (0, [htobe16 1])"
    by (simp add: emit_def sentinels.simps BUF_UNITS_def)
  have "resample 0x80000000 0x80000000 (replicate 131072 0) 0 [] = Inr (0, [htobe16 1])"
    by (simp only: n resample_sentinel_run x e)
  then show ?thesis by (simp only: resample_track_def sum.case prod.case)
qed

text \<open>
  Without the bound on the scaled time the statement fails: 131072 sentinel samples
  with \<^verbatim>\<open>drvtime = imtime = 0x80000000\<close> add \<open>2^17 * 2^16 * 2^31 = 2^64\<close> to the
  accumulator, which wraps to 0, and the loop stores the single unit 1 for an input of
  \<open>2^33\<close> ticks.
\<close>

theorem resample_time_wraps:
  "resample_track 0x80000000 0x80000000 (replicate 131072 0) = Inr [htobe16 1] \<and>
   \<not> \<bar>int (total_ticks [htobe16 1]) * int (unat (0x80000000 :: u32))
        - int (total_ticks (replicate 131072 0)) * int (unat (0x80000000 :: u32))\<bar>
       \<le> int (length [htobe16 1]) * int (unat (0x80000000 :: u32))"
proof -
  have o: "total_ticks [htobe16 1] = 1"
    by (simp add: total_ticks_def ticks_def unit_value_htobe16 htobe16_eq_0)
  have i: "total_ticks (replicate 131072 0) = 131072 * 65536"
    by (rule total_ticks_sentinels)
  show ?thesis by (simp only: wrapped_run o i) simp
qed

text \<open>
  C4, as amended: for the samples \<open>[100, 0, 50000]\<close>, \<^verbatim>\<open>imtime = 200000\<close> and
  \<^verbatim>\<open>drvtime = 100000\<close> the loop stores the two units 50 and 57768. Their values sum to
  57818 ticks, which is \<open>(100 + 65536 + 50000) * 100000 / 200000\<close>; both are in
  \<open>[1, 65535]\<close> and no sentinel unit is stored.
\<close>

theorem scenario_output:
  "resample_track 100000 200000 (map htobe16 [100, 0, 50000]) = Inr [htobe16 50, htobe16 57768] \<and>
   map unit_value [htobe16 50, htobe16 57768] = [50, 57768] \<and>
   total_ticks [htobe16 50, htobe16 57768] = 57818 \<and>
   0 \<notin> set [htobe16 50, htobe16 57768] \<and>
   total_ticks (map htobe16 [100, 0, 50000]) * 100000 div 200000 = 57818"
proof -
  have m: "map htobe16 [100, 0, 50000] = [htobe16 100, 0, htobe16 50000]"
    by (simp add: htobe16_eq_0)
  show ?thesis
    by (simp only: m scenario_track scenario_output_ticks scenario_input_ticks)
       (simp add: scenario_values)
qed

text \<open>The values of the units stored for this input do not sum to 32868.\<close>

theorem scenario_sum_differs:
  "resample_track 100000 200000 (map htobe16 [100, 0, 50000]) = Inr [htobe16 50, htobe16 57768] \<and>
   sum_list (map unit_value [htobe16 50, htobe16 57768]) \<noteq> 32868"
proof -
  have m: "map htobe16 [100, 0, 50000] = [htobe16 100, 0, htobe16 50000]"
    by (simp add: htobe16_eq_0)
  show ?thesis
    by (simp only: m scenario_track) (simp add: scenario_values)
qed

subsection \<open>The checksum\<close>

lemma fold_csum:
  "fold (\<lambda>b csum. csum + ucast b) buf (a :: u32) = a + of_nat (sum_list (map unat buf))"
proof (induction buf arbitrary: a)
  case Nil
  show ?case by simp
next
  case (Cons b buf)
  have "(ucast b :: u32) = of_nat (unat b)" by simp
  then show ?case by (simp add: Cons.IH algebra_simps)
qed

lemma csum_bytes_sum: "csum_bytes buf = of_nat (sum_list (map unat buf))"
  by (simp add: csum_bytes_def fold_csum)

lemma unat_csum_bytes: "unat (csum_bytes buf) = sum_list (map unat buf) mod 2 ^ 32"
  by (simp add: csum_bytes_sum unat_of_nat)

lemma csum_bytes_append: "csum_bytes (us @ vs) = csum_bytes us + csum_bytes vs"
  by (simp add: csum_bytes_sum)

lemma ucast_byte_inj:
  fixes b c :: u8
  assumes "(ucast b :: u32) = ucast c"
  shows "b = c"
proof -
  have eq: "unat (ucast b :: u32) = unat (ucast c :: u32)" using assms by simp
  have "unat b < 2 ^ 8" "unat c < 2 ^ 8"
    using unsigned_less [of b, where 'a = nat] unsigned_less [of c, where 'a = nat] by simp_all
  then have "unat b < 2 ^ 32" "unat c < 2 ^ 32" by simp_all
  with eq have "unat b = unat c"
    by (simp add: unsigned_ucast_eq take_bit_nat_eq_self)
  then show ?thesis by (simp add: word_unat_eq_iff)
qed

lemma csum_bytes_update:
  assumes "i < length buf" and "b \<noteq> buf ! i"
  shows "csum_bytes (buf[i := b]) \<noteq> csum_bytes buf"
proof
  assume eq: "csum_bytes (buf[i := b]) = csum_bytes buf"
  have old: "buf = take i buf @ [buf ! i] @ drop (Suc i) buf"
    using assms(1) by (simp add: id_take_nth_drop)
  have new: "buf[i := b] = take i buf @ [b] @ drop (Suc i) buf"
    using assms(1) by (simp add: upd_conv_take_nth_drop)
  have "csum_bytes (take i buf @ [b] @ drop (Suc i) buf) =
        csum_bytes (take i buf @ [buf ! i] @ drop (Suc i) buf)"
    using eq old new by simp
  then have "csum_bytes [b] = csum_bytes [buf ! i]"
    by (simp only: csum_bytes_append) simp
  then have "(ucast b :: u32) = ucast (buf ! i)" by (simp add: csum_bytes_def)
  then have "b = buf ! i" by (rule ucast_byte_inj)
  with assms(2) show False by simp
qed

lemma file_size_int_small:
  assumes "length bytes < 2 ^ 31"
  shows "file_size_int bytes = int (length bytes)"
proof -
  have "signed_take_bit 31 (int (length bytes)) = int (length bytes)"
    using assms by (intro signed_take_bit_int_eq_self) simp_all
  then show ?thesis by (simp add: file_size_int_def signed_of_nat)
qed

lemma verify_checksum_eq:
  assumes "length bytes < 2 ^ 31"
  shows "verify_checksum h dhdr bytes pos io =
     (if writable h dhdr \<or> checksum dhdr = 0 then Inr (pos, io)
      else if length bytes < 16 then Inl (TooShort, io)
      else if csum_bytes (drop 16 bytes) \<noteq> checksum dhdr
        then Inl (BadChecksum, io @ [FileRead 16 (length bytes - 16)])
      else Inr (16, io @ [FileRead 16 (length bytes - 16)]))"
proof -
  have sz: "file_size_int bytes = int (length bytes)"
    using assms by (rule file_size_int_small)
  have n: "nat (int (length bytes) - 16) = length bytes - 16" by simp
  show ?thesis
    by (simp add: verify_checksum_def sz n rd_def read_exact_def le32toh_def Let_def)
qed

text \<open>
  C5, as amended: for an image file of fewer than \<open>2^31\<close> bytes (the sizes the \<^verbatim>\<open>int\<close>
  that holds the file size can represent), the checksum is verified unless the
  writable flag is set or the declared checksum is 0; a verified file of fewer than
  16 bytes is too short, and otherwise all bytes from offset 16 to the end of the file
  are summed as unsigned bytes into a wrapping 32-bit sum, and a sum that differs from
  the declared checksum is the fatal "bad checksum". So changing one byte at an
  offset from 16 on, in a file whose checksum was verified and accepted, is detected.
\<close>

theorem checksum_gate:
  assumes "length bytes < 2 ^ 31"
  shows "verify_checksum h dhdr bytes pos io =
           (if writable h dhdr \<or> checksum dhdr = 0 then Inr (pos, io)
            else if length bytes < 16 then Inl (TooShort, io)
            else if csum_bytes (drop 16 bytes) \<noteq> checksum dhdr
              then Inl (BadChecksum, io @ [FileRead 16 (length bytes - 16)])
            else Inr (16, io @ [FileRead 16 (length bytes - 16)]))
         \<and> unat (csum_bytes (drop 16 bytes)) = sum_list (map unat (drop 16 bytes)) mod 2 ^ 32
         \<and> (\<not> writable h dhdr \<and> checksum dhdr \<noteq> 0 \<and>
              verify_checksum h dhdr bytes pos io = Inr (pos', io') \<and>
              16 \<le> i \<and> i < length bytes \<and> b \<noteq> bytes ! i
             \<longrightarrow> verify_checksum h dhdr (bytes[i := b]) pos io =
                   Inl (BadChecksum, io @ [FileRead 16 (length bytes - 16)]))"
proof (intro conjI impI)
  show "verify_checksum h dhdr bytes pos io =
           (if writable h dhdr \<or> checksum dhdr = 0 then Inr (pos, io)
            else if length bytes < 16 then Inl (TooShort, io)
            else if csum_bytes (drop 16 bytes) \<noteq> checksum dhdr
              then Inl (BadChecksum, io @ [FileRead 16 (length bytes - 16)])
            else Inr (16, io @ [FileRead 16 (length bytes - 16)]))"
    using assms by (rule verify_checksum_eq)
next
  show "unat (csum_bytes (drop 16 bytes)) = sum_list (map unat (drop 16 bytes)) mod 2 ^ 32"
    by (rule unat_csum_bytes)
next
  assume a: "\<not> writable h dhdr \<and> checksum dhdr \<noteq> 0 \<and>
     verify_checksum h dhdr bytes pos io = Inr (pos', io') \<and>
     16 \<le> i \<and> i < length bytes \<and> b \<noteq> bytes ! i"
  then have ok: "csum_bytes (drop 16 bytes) = checksum dhdr" and len: "16 \<le> length bytes"
    using verify_checksum_eq [OF assms, of h dhdr pos io] by (auto split: if_splits)
  have "drop 16 (bytes[i := b]) = (drop 16 bytes)[i - 16 := b]"
    using a by (simp add: drop_update_swap)
  moreover have "i - 16 < length (drop 16 bytes)" and "b \<noteq> drop 16 bytes ! (i - 16)"
    using a by auto
  ultimately have "csum_bytes (drop 16 (bytes[i := b])) \<noteq> checksum dhdr"
    using csum_bytes_update ok by metis
  moreover have "length (bytes[i := b]) < 2 ^ 31" using assms by simp
  ultimately show "verify_checksum h dhdr (bytes[i := b]) pos io =
      Inl (BadChecksum, io @ [FileRead 16 (length bytes - 16)])"
    using a len by (simp add: verify_checksum_eq)
qed

lemma not_writable_example:
  "\<not> writable scp_v1 \<lparr>dhdr_sig = SCP_sig, flags = 0, checksum = c, start_track = 0, end_track = 0\<rparr>"
  by (simp add: writable_def)

theorem checksum_gate_witness:
  "verify_checksum scp_v1
     \<lparr>dhdr_sig = SCP_sig, flags = 0, checksum = 5, start_track = 0, end_track = 0\<rparr>
     (replicate 16 0 @ [2, 3]) 16 [] = Inr (16, [FileRead 16 2]) \<and>
   verify_checksum scp_v1
     \<lparr>dhdr_sig = SCP_sig, flags = 0, checksum = 5, start_track = 0, end_track = 0\<rparr>
     ((replicate 16 0 @ [2, 3])[17 := 4]) 16 [] = Inl (BadChecksum, [FileRead 16 2])"
proof -
  let ?d = "\<lparr>dhdr_sig = SCP_sig, flags = 0, checksum = 5, start_track = 0, end_track = 0\<rparr>"
  let ?bytes = "replicate 16 (0 :: u8) @ [2, 3]"
  have len: "length ?bytes < 2 ^ 31" by simp
  have l: "length ?bytes = 18" by simp
  have c: "csum_bytes (drop 16 ?bytes) = 5" by (simp add: csum_bytes_def)
  have i: "(3 :: u8) = ?bytes ! 17" by (simp add: nth_append)
  note t = checksum_gate [OF len, of scp_v1 ?d 16 "[]" 16 "[FileRead 16 2]" 17 4]
  have ok: "verify_checksum scp_v1 ?d ?bytes 16 [] = Inr (16, [FileRead 16 2])"
    using t not_writable_example [of 5] by (simp only: c l) simp
  have "(4 :: u8) \<noteq> ?bytes ! 17" by (simp only: i [symmetric]) simp
  then have "verify_checksum scp_v1 ?d (?bytes[17 := 4]) 16 [] = Inl (BadChecksum, [FileRead 16 2])"
    using t ok not_writable_example [of 5] by (simp only: l) simp
  with ok show ?thesis by simp
qed

text \<open>
  Beyond that size the statement fails. For a file of \<open>2^32 + 17\<close> bytes \<^verbatim>\<open>sz\<close> is 17:
  one byte is summed, and the declared checksum 1 is accepted although the bytes from
  offset 16 on sum to 3.
\<close>

theorem checksum_skips_bytes:
  "verify_checksum scp_v1
     \<lparr>dhdr_sig = SCP_sig, flags = 0, checksum = 1, start_track = 0, end_track = 0\<rparr>
     (replicate 16 0 @ [1, 2] @ replicate 4294967295 0) 16 [] = Inr (16, [FileRead 16 1]) \<and>
   \<not> writable scp_v1
     \<lparr>dhdr_sig = SCP_sig, flags = 0, checksum = 1, start_track = 0, end_track = 0\<rparr> \<and>
   csum_bytes (drop 16 (replicate 16 0 @ [1, 2] @ replicate 4294967295 0)) = 3"
proof -
  let ?d = "\<lparr>dhdr_sig = SCP_sig, flags = 0, checksum = 1, start_track = 0, end_track = 0\<rparr>"
  let ?bytes = "replicate 16 (0 :: u8) @ [1, 2] @ replicate 4294967295 0"
  have l: "length ?bytes = 4294967313" by simp
  have sz: "file_size_int ?bytes = 17" by (simp only: file_size_int_def l) simp
  have d: "drop 16 ?bytes = [1, 2] @ replicate 4294967295 0" by simp
  have "sum_list (map unat (replicate 4294967295 (0 :: u8))) = 0"
    by (simp only: map_replicate sum_list_replicate) simp
  then have z: "csum_bytes (replicate 4294967295 0) = 0" by (simp only: csum_bytes_sum) simp
  have c: "csum_bytes (drop 16 ?bytes) = 3"
    by (simp only: d csum_bytes_append z) (simp add: csum_bytes_def)
  have r: "rd ?bytes 16 1 [] = Inr ([1], [FileRead 16 1])"
    by (simp only: rd_def read_exact_def l d) simp
  have n: "nat (17 - 16 :: int) = 1" by simp
  have "verify_checksum scp_v1 ?d ?bytes 16 [] = Inr (16, [FileRead 16 1])"
    using not_writable_example [of 1]
    by (simp only: verify_checksum_def sz Let_def n r)
       (simp add: csum_bytes_def le32toh_def)
  with c not_writable_example [of 1] show ?thesis by simp
qed

subsection \<open>The track loop and the command line\<close>

text \<open>
  C7: a track of the requested range that lies outside the bounds
  \<^verbatim>\<open>[start_track, end_track]\<close> of the image, or whose entry in the offset table is 0,
  leaves the run as it was: no read of the file, no call to the Supercard Pro and no
  failure, and the loop goes on with the next track.
\<close>

theorem absent_track_skipped:
  assumes "trk < ucast (start_track dhdr) \<or> trk > ucast (end_track dhdr) \<or>
           le32toh (th_offs ! unat trk) = 0"
  shows "track_iter h bytes dhdr th_offs drvtime trk io = Inr io \<and>
         (\<forall>t ts. trk = of_nat t \<longrightarrow>
            track_loop h bytes dhdr th_offs drvtime (t # ts) io =
            track_loop h bytes dhdr th_offs drvtime ts io)"
proof -
  have "track_iter h bytes dhdr th_offs drvtime trk io = Inr io"
    using assms by (auto simp: track_iter_def Let_def)
  then show ?thesis by auto
qed

theorem absent_track_skipped_witness:
  "le32toh ([100, 0] ! unat (1 :: u32)) = 0 \<and>
   track_iter scp_v1 []
     \<lparr>dhdr_sig = SCP_sig, flags = 0, checksum = 0, start_track = 0, end_track = 5\<rparr>
     [100, 0] 8000000 1 [ScpReadFlux] = Inr [ScpReadFlux] \<and>
   track_loop scp_v1 []
     \<lparr>dhdr_sig = SCP_sig, flags = 0, checksum = 0, start_track = 0, end_track = 5\<rparr>
     [100, 0] 8000000 [1] [ScpReadFlux] = Inr [ScpReadFlux]"
proof -
  let ?d = "\<lparr>dhdr_sig = SCP_sig, flags = 0, checksum = 0, start_track = 0, end_track = 5\<rparr>"
  have z: "le32toh ([100, 0] ! unat (1 :: u32)) = 0" by (simp add: le32toh_def)
  then have a: "(1 :: u32) < ucast (start_track ?d) \<or> 1 > ucast (end_track ?d) \<or>
           le32toh ([100, 0] ! unat (1 :: u32)) = 0" by (rule disjI2 [OF disjI2])
  note t = absent_track_skipped [OF a, of scp_v1 "[]" 8000000 "[ScpReadFlux]"]
  have "track_loop scp_v1 [] ?d [100, 0] 8000000 [1] [ScpReadFlux] =
        track_loop scp_v1 [] ?d [100, 0] 8000000 [] [ScpReadFlux]"
    using t by (metis of_nat_1)
  with t z show ?thesis by simp
qed

text \<open>
  C8: a track range with \<^verbatim>\<open>end_trk >= SCP_MAX_TRACKS\<close> or \<^verbatim>\<open>start_trk > end_trk\<close> ends
  the run before the file is opened or read and before any call to the Supercard Pro:
  with the "bad track range" exit when the command line names one image file, and
  with the usage exit of line 110 otherwise.
\<close>

theorem bad_track_range:
  assumes "SCP_MAX_TRACKS h \<le> unat (end_trk a) \<or> end_trk a < start_trk a"
  shows "main h a w = Inl (if operands a = 1 then BadTrackRange else BadUsage, [])"
  using assms by (auto simp: main_def)

theorem bad_track_range_witness:
  "main scp_v1 \<lparr>operands = 1, start_trk = 0, end_trk = 168, quiet = False\<rparr>
     \<lparr>image_file = Some [], index_time = 8000000\<rparr> = Inl (BadTrackRange, [])"
proof -
  let ?a = "\<lparr>operands = 1, start_trk = 0, end_trk = 168, quiet = False\<rparr>"
  have "SCP_MAX_TRACKS scp_v1 \<le> unat (end_trk ?a) \<or> end_trk ?a < start_trk ?a"
    by (simp add: scp_v1_def)
  from bad_track_range [OF this] show ?thesis by simp
qed

subsection \<open>A track whose duration is zero\<close>

lemma emit_zero_imtime: "emit 0 x odat = Inl DivideByZero"
  by (simp add: emit_def)

lemma resample_zero_imtime:
  "dat \<noteq> [] \<Longrightarrow> resample drvtime 0 dat x odat = Inl DivideByZero"
  by (induction dat arbitrary: x) (simp_all add: emit_zero_imtime)

text \<open>
  C3: the code has no test of \<^verbatim>\<open>imtime\<close>. With \<^verbatim>\<open>imtime = 0\<close> and at least one sample,
  the loop reaches the division \<^verbatim>\<open>x / imtime\<close> and divides by zero; with no sample the
  loop is not entered and the track is written with no unit at all.
\<close>

theorem zero_duration_divides:
  "(dat \<noteq> [] \<longrightarrow> resample_track drvtime 0 dat = Inl DivideByZero) \<and>
   resample_track drvtime 0 [] = Inr []"
  by (simp add: resample_track_def resample_zero_imtime)

theorem zero_duration_divides_witness:
  "main scp_v1 \<lparr>operands = 1, start_trk = 0, end_trk = 0, quiet = True\<rparr>
     \<lparr>image_file = Some zero_duration_image, index_time = 8000000\<rparr> =
   Inl (DivideByZero,
        [FileOpen, FileRead 0 16, FileRead 16 4,
         ScpOpen, ScpSetParams, ScpSelectDrive, ScpSeekTrack 0, ScpReadFlux,
         FileRead 20 16, FileRead 36 2])"
proof -
  let ?d = "\<lparr>dhdr_sig = SCP_sig, flags = 0, checksum = 0, start_track = 0, end_track = 0\<rparr>"
  let ?io = "[FileOpen, FileRead 0 16, FileRead 16 4,
         ScpOpen, ScpSetParams, ScpSelectDrive, ScpSeekTrack 0, ScpReadFlux]"
  have r1: "rd zero_duration_image 0 16 [FileOpen] =
      Inr ([0x53, 0x43, 0x50, 0, 0, 1, 0, 0, 0, 0, 0, 0, 0, 0, 0, 0], [FileOpen, FileRead 0 16])"
    by (simp add: rd_def read_exact_def zero_duration_image_def)
  have d: "as_dhdr scp_v1 [0x53, 0x43, 0x50, 0, 0, 1, 0, 0, 0, 0, 0, 0, 0, 0, 0, 0] = ?d"
    by (simp add: scp_v1_def SCP_sig_def)
  have v: "verify_checksum scp_v1 ?d zero_duration_image 16 [FileOpen, FileRead 0 16] =
      Inr (16, [FileOpen, FileRead 0 16])"
    by (simp add: verify_checksum_def)
  have r2: "rd zero_duration_image 16 4 [FileOpen, FileRead 0 16] =
      Inr ([20, 0, 0, 0], [FileOpen, FileRead 0 16, FileRead 16 4])"
    by (simp add: rd_def read_exact_def zero_duration_image_def)
  have r3: "rd zero_duration_image 20 16 ?io =
      Inr ([0x54, 0x52, 0x4B, 0, 0, 0, 0, 0, 1, 0, 0, 0, 16, 0, 0, 0], ?io @ [FileRead 20 16])"
    by (simp add: rd_def read_exact_def zero_duration_image_def)
  have t: "as_thdr scp_v1 [0x54, 0x52, 0x4B, 0, 0, 0, 0, 0, 1, 0, 0, 0, 16, 0, 0, 0] =
      \<lparr>thdr_sig = TRK_sig, tracknr = 0, rev0 = \<lparr>duration = 0, nr_samples = 1, offset = 16\<rparr>\<rparr>"
    by (simp add: scp_v1_def TRK_sig_def)
  have r4: "rd zero_duration_image 36 2 (?io @ [FileRead 20 16]) =
      Inr ([0, 100], ?io @ [FileRead 20 16, FileRead 36 2])"
    by (simp add: rd_def read_exact_def zero_duration_image_def)
  have u: "units_of [0, 100] = [25600]" by simp
  have z: "resample_track 8000000 0 [25600] = Inl DivideByZero"
    using zero_duration_divides [of "[25600]" 8000000] by simp
  have ti: "track_iter scp_v1 zero_duration_image ?d [20] 8000000 0 ?io =
      Inl (DivideByZero, ?io @ [FileRead 20 16, FileRead 36 2])"
    by (simp add: track_iter_def le32toh_def htole32_def r3 t r4 u z BUF_UNITS_def
        scp_v1_def [THEN arg_cong, of sizeof_thdr] del: append.simps)
  have sz: "sizeof_dhdr scp_v1 = 16" by (simp add: scp_v1_def)
  have mx: "SCP_MAX_TRACKS scp_v1 = 168" by (simp add: scp_v1_def)
  show ?thesis
    by (simp add: main_def sz mx r1 d v r2 htole32_def ti)
qed

subsection \<open>When the loop returns\<close>

lemma emit_fails:
  assumes "imtime \<noteq> 0" and "emit imtime x odat = Inl e"
  shows "e = OdatOverrun"
  using assms by (simp add: emit_eq split: if_splits)

lemma resample_fails:
  assumes "imtime \<noteq> 0" and "resample drvtime imtime dat x odat = Inl e"
  shows "e = OdatOverrun"
  using assms(2)
proof (induction dat arbitrary: x odat)
  case Nil
  then show ?case by simp
next
  case (Cons d dat)
  then show ?case
    using emit_fails [OF assms(1)]
    by (auto split: sum.splits if_splits)
qed

lemma emit_returns:
  assumes "imtime \<noteq> 0"
    and "length odat + unat x div (65536 * unat imtime) < BUF_UNITS"
  shows "emit imtime x odat =
     Inr (x mod ucast imtime,
          odat @ replicate (unat x div (65536 * unat imtime)) 0 @
            [htobe16 (ucast (if (x div ucast imtime) mod 0x10000 \<noteq> 0
                             then (x div ucast imtime) mod 0x10000 else 1))])"
proof -
  have "unat (x div ucast imtime) div 65536 = unat x div (65536 * unat imtime)"
    by (simp add: unat_div unat_ucast_imtime div_mult2_eq mult.commute)
  then show ?thesis using assms by (simp add: emit_eq)
qed

lemma carry_room:
  fixes a R im :: nat
  assumes "0 < im"
  shows "a div (65536 * im) + (a mod im + R) div (65536 * im) \<le> (a + R) div (65536 * im)"
proof -
  define M where "M = 65536 * im"
  have M: "M \<noteq> 0" using assms by (simp add: M_def)
  have "im dvd M" by (simp add: M_def)
  then have "a mod M mod im = a mod im" by (rule mod_mod_cancel)
  then have le: "a mod im \<le> a mod M" by (metis mod_less_eq_dividend)
  have "(a mod M + R + (a div M) * M) div M = a div M + (a mod M + R) div M"
    using M by (rule div_mult_self1)
  moreover have "a mod M + R + (a div M) * M = a + R" by simp
  ultimately have "(a + R) div M = a div M + (a mod M + R) div M" by metis
  moreover have "(a mod im + R) div M \<le> (a mod M + R) div M"
    using le by (simp add: div_le_mono)
  ultimately show ?thesis unfolding M_def by linarith
qed

text \<open>
  The output has at most one unit for each sample and one sentinel for each 65536
  ticks of scaled time, so the loop returns when that many units fit \<^verbatim>\<open>odat\<close>.
\<close>

lemma resample_returns:
  assumes "imtime \<noteq> 0"
    and "unat x + total_ticks dat * unat drvtime < 2 ^ 64"
    and "length odat + length dat +
           (unat x + total_ticks dat * unat drvtime) div (65536 * unat imtime) \<le> BUF_UNITS"
  shows "\<exists>r. resample drvtime imtime dat x odat = Inr r"
  using assms(2,3)
proof (induction dat arbitrary: x odat)
  case Nil
  show ?case by simp
next
  case (Cons d dat)
  define M where "M = 65536 * unat imtime"
  define R where "R = total_ticks dat * unat drvtime"
  define v :: u64 where "v = (if d \<noteq> 0 then ucast (be16toh d) else 0x10000)"
  define x1 where "x1 = x + v * ucast drvtime"
  have im: "0 < unat imtime" using assms(1) by (simp add: unat_gt_0)
  have v: "unat v = ticks d"
    by (simp add: v_def ticks_def unit_value_def unat_ucast_unit)
  have T: "total_ticks (d # dat) * unat drvtime = ticks d * unat drvtime + R"
    by (simp add: total_ticks_Cons R_def algebra_simps)
  have fit: "unat x + ticks d * unat drvtime + R < 2 ^ 64"
    using Cons.prems(1) unfolding T by simp
  then have "unat x + unat v * unat drvtime < 2 ^ 64" by (simp only: v)
  then have "unat x1 = unat x + unat v * unat drvtime"
    unfolding x1_def by (rule unat_accumulate)
  then have x1: "unat x1 = unat x + ticks d * unat drvtime" by (simp only: v)
  have fit1: "unat x1 + R < 2 ^ 64" using fit x1 by simp
  have "length odat + length (d # dat) + (unat x + (ticks d * unat drvtime + R)) div M
          \<le> BUF_UNITS"
    using Cons.prems(2) unfolding T M_def by simp
  then have room: "length odat + Suc (length dat) + (unat x1 + R) div M \<le> BUF_UNITS"
    using x1 by (simp add: add.assoc)
  show ?case
  proof (cases "d = 0 \<and> dat \<noteq> []")
    case True
    have "\<exists>r. resample drvtime imtime dat x1 odat = Inr r"
    proof (rule Cons.IH)
      show "unat x1 + total_ticks dat * unat drvtime < 2 ^ 64"
        using fit1 by (simp only: R_def)
      show "length odat + length dat +
          (unat x1 + total_ticks dat * unat drvtime) div (65536 * unat imtime) \<le> BUF_UNITS"
        using room by (simp only: R_def M_def)
    qed
    then show ?thesis using True by (simp add: x1_def v_def)
  next
    case False
    define q where "q = unat x1 div M"
    define x2 where "x2 = x1 mod ucast imtime"
    have x2: "unat x2 = unat x1 mod unat imtime"
      by (simp add: x2_def unat_mod unat_ucast_imtime)
    have cr: "q + (unat x2 + R) div M \<le> (unat x1 + R) div M"
      unfolding q_def x2 M_def using im by (rule carry_room)
    then have "length odat + q < BUF_UNITS" using room by simp
    then have "length odat + unat x1 div (65536 * unat imtime) < BUF_UNITS"
      by (simp only: q_def M_def)
    from emit_returns [OF assms(1) this]
    obtain odat2 where e: "emit imtime x1 odat = Inr (x2, odat2)"
      and l2: "length odat2 = length odat + q + 1"
      by (simp add: x2_def q_def M_def)
    have "\<exists>r. resample drvtime imtime dat x2 odat2 = Inr r"
    proof (rule Cons.IH)
      have "unat x2 \<le> unat x1" by (simp add: x2)
      then show "unat x2 + total_ticks dat * unat drvtime < 2 ^ 64"
        using fit1 by (simp add: R_def)
      have "length odat2 + length dat + (unat x2 + R) div M \<le> BUF_UNITS"
        using room l2 cr by simp
      then show "length odat2 + length dat +
          (unat x2 + total_ticks dat * unat drvtime) div (65536 * unat imtime) \<le> BUF_UNITS"
        by (simp only: R_def M_def)
    qed
    moreover have "resample drvtime imtime (d # dat) x odat =
        resample drvtime imtime dat x2 odat2"
      using False e by (auto simp: x1_def v_def)
    ultimately show ?thesis by simp
  qed
qed

lemma accumulator_fits:
  assumes "length dat \<le> BUF_UNITS" and "unat (drvtime :: u32) < 2 ^ 31"
  shows "total_ticks dat * unat drvtime < 2 ^ 64"
proof -
  have "total_ticks dat \<le> length dat * 65536"
    by (induction dat) (simp_all add: total_ticks_def ticks_le add_le_mono)
  then have "total_ticks dat \<le> 2 ^ 33"
    using assms(1) by (simp add: BUF_UNITS_def)
  moreover have "unat drvtime \<le> 2 ^ 31 - 1" using assms(2) by simp
  ultimately have "total_ticks dat * unat drvtime \<le> 2 ^ 33 * (2 ^ 31 - 1)"
    by (rule mult_le_mono)
  then show ?thesis by simp
qed

text \<open>
  C10: for a non-empty sample sequence and \<^verbatim>\<open>imtime > 0\<close>, the loop either runs past
  the end of \<^verbatim>\<open>odat\<close> or hands \<^verbatim>\<open>scp_write_flux\<close> an output that is not empty, whose
  last unit is not a sentinel (its value is in \<open>[1, 65535]\<close>) and in which every
  sentinel unit is followed by a further unit. It does return an output when the
  scaled time of the input fits the accumulator and \<^verbatim>\<open>odat\<close> has room for one unit for
  each sample and one sentinel for each 65536 ticks of scaled time.
\<close>

theorem output_ends_in_interval:
  assumes "dat \<noteq> []" and "imtime \<noteq> 0"
  shows "(case resample_track drvtime imtime dat of
            Inl e \<Rightarrow> e = OdatOverrun
          | Inr out \<Rightarrow>
              out \<noteq> [] \<and> last out \<noteq> 0 \<and>
              1 \<le> unit_value (last out) \<and> unit_value (last out) \<le> 65535 \<and>
              (\<forall>i < length out. out ! i = 0 \<longrightarrow> Suc i < length out) \<and>
              out \<noteq> replicate (length out) 0)
         \<and> (total_ticks dat * unat drvtime < 2 ^ 64 \<and>
              length dat + total_ticks dat * unat drvtime div (65536 * unat imtime) \<le> BUF_UNITS
             \<longrightarrow> (\<exists>out. resample_track drvtime imtime dat = Inr out))"
proof (intro conjI impI)
  show "case resample_track drvtime imtime dat of
            Inl e \<Rightarrow> e = OdatOverrun
          | Inr out \<Rightarrow>
              out \<noteq> [] \<and> last out \<noteq> 0 \<and>
              1 \<le> unit_value (last out) \<and> unit_value (last out) \<le> 65535 \<and>
              (\<forall>i < length out. out ! i = 0 \<longrightarrow> Suc i < length out) \<and>
              out \<noteq> replicate (length out) 0"
  proof (cases "resample_track drvtime imtime dat")
    case (Inl e)
    then have "resample drvtime imtime dat 0 [] = Inl e"
      by (auto simp: resample_track_def split: sum.splits)
    then have "e = OdatOverrun" using assms(2) resample_fails by blast
    with Inl show ?thesis by simp
  next
    case (Inr out)
    then obtain x1 where "resample drvtime imtime dat 0 [] = Inr (x1, out)"
      by (rule resample_track_Inr)
    then have ne: "out \<noteq> []" and l: "last out \<noteq> 0"
      using resample_last assms(1) by blast+
    have v: "1 \<le> unit_value (last out) \<and> unit_value (last out) \<le> 65535"
      using l unit_value_less [of "last out"] unit_value_eq_0 [of "last out"] by simp
    have s: "\<forall>i < length out. out ! i = 0 \<longrightarrow> Suc i < length out"
    proof (intro allI impI)
      fix i assume i: "i < length out" and z: "out ! i = 0"
      have "i \<noteq> length out - 1" using z l ne by (auto simp: last_conv_nth)
      then show "Suc i < length out" using i by simp
    qed
    have "out \<noteq> replicate (length out) 0"
    proof
      assume "out = replicate (length out) 0"
      then have "last out = last (replicate (length out) (0::u16))" by simp
      then have "last out = 0" using ne by simp
      with l show False by simp
    qed
    with Inr ne l v s show ?thesis by simp
  qed
next
  assume "total_ticks dat * unat drvtime < 2 ^ 64 \<and>
     length dat + total_ticks dat * unat drvtime div (65536 * unat imtime) \<le> BUF_UNITS"
  then have "\<exists>r. resample drvtime imtime dat 0 [] = Inr r"
    using assms(2) by (intro resample_returns) simp_all
  then show "\<exists>out. resample_track drvtime imtime dat = Inr out"
    by (auto simp: resample_track_def)
qed

theorem output_ends_in_interval_witness:
  "resample_track 100000 200000 [htobe16 100, 0, htobe16 50000] = Inr [htobe16 50, htobe16 57768] \<and>
   last [htobe16 50, htobe16 57768] \<noteq> 0 \<and> unit_value (last [htobe16 50, htobe16 57768]) = 57768"
proof -
  have 1: "[htobe16 100, 0, htobe16 50000] \<noteq> []" by simp
  have 2: "(200000 :: u32) \<noteq> 0" by simp
  show ?thesis
    using output_ends_in_interval [OF 1 2, of 100000] scenario_track
    by (simp add: scenario_values)
qed

subsection \<open>The whole run on the scenario of the specification\<close>

lemma scenario_main_run:
  "main scp_v1 \<lparr>operands = 1, start_trk = 0, end_trk = 1, quiet = True\<rparr>
     \<lparr>image_file = Some scenario_image, index_time = 100000\<rparr> =
   Inr [FileOpen, FileRead 0 16, FileRead 16 8,
        ScpOpen, ScpSetParams, ScpSelectDrive, ScpSeekTrack 0, ScpReadFlux,
        FileRead 24 16, FileRead 40 6,
        ScpSeekTrack 0, ScpWriteFlux [htobe16 50, htobe16 57768],
        ScpDeselectDrive, ScpClose]"
proof -
  let ?d = "\<lparr>dhdr_sig = SCP_sig, flags = 0, checksum = 0, start_track = 0, end_track = 1\<rparr>"
  let ?io = "[FileOpen, FileRead 0 16, FileRead 16 8,
         ScpOpen, ScpSetParams, ScpSelectDrive, ScpSeekTrack 0, ScpReadFlux]"
  have r1: "rd scenario_image 0 16 [FileOpen] =
      Inr ([0x53, 0x43, 0x50, 0, 0, 1, 0, 1, 0, 0, 0, 0, 0, 0, 0, 0], [FileOpen, FileRead 0 16])"
    by (simp add: rd_def read_exact_def scenario_image_def)
  have d: "as_dhdr scp_v1 [0x53, 0x43, 0x50, 0, 0, 1, 0, 1, 0, 0, 0, 0, 0, 0, 0, 0] = ?d"
    by (simp add: scp_v1_def SCP_sig_def)
  have v: "verify_checksum scp_v1 ?d scenario_image 16 [FileOpen, FileRead 0 16] =
      Inr (16, [FileOpen, FileRead 0 16])"
    by (simp add: verify_checksum_def)
  have r2: "rd scenario_image 16 8 [FileOpen, FileRead 0 16] =
      Inr ([24, 0, 0, 0, 0, 0, 0, 0], [FileOpen, FileRead 0 16, FileRead 16 8])"
    by (simp add: rd_def read_exact_def scenario_image_def)
  have w: "words_of [24, 0, 0, 0, 0, 0, 0, 0] = [24, 0]" by simp
  have r3: "rd scenario_image 24 16 ?io =
      Inr ([0x54, 0x52, 0x4B, 0, 0x40, 0x0D, 0x03, 0, 3, 0, 0, 0, 16, 0, 0, 0],
           ?io @ [FileRead 24 16])"
    by (simp add: rd_def read_exact_def scenario_image_def)
  have t: "as_thdr scp_v1 [0x54, 0x52, 0x4B, 0, 0x40, 0x0D, 0x03, 0, 3, 0, 0, 0, 16, 0, 0, 0] =
      \<lparr>thdr_sig = TRK_sig, tracknr = 0,
       rev0 = \<lparr>duration = 200000, nr_samples = 3, offset = 16\<rparr>\<rparr>"
    by (simp add: scp_v1_def TRK_sig_def)
  have r4: "rd scenario_image 40 6 (?io @ [FileRead 24 16]) =
      Inr ([0, 100, 0, 0, 0xC3, 0x50], ?io @ [FileRead 24 16, FileRead 40 6])"
    by (simp add: rd_def read_exact_def scenario_image_def)
  have "[25600, 0, 20675] = [htobe16 100, 0, htobe16 50000]"
    by (simp add: htobe16_def bswap16_def)
  then have z: "resample_track 100000 200000 [25600, 0, 20675] = Inr [htobe16 50, htobe16 57768]"
    by (simp only: scenario_track)
  have t0: "track_iter scp_v1 scenario_image ?d [24, 0] 100000 0 ?io =
      Inr (?io @ [FileRead 24 16, FileRead 40 6,
                  ScpSeekTrack 0, ScpWriteFlux [htobe16 50, htobe16 57768]])"
    by (simp add: track_iter_def le32toh_def htole32_def r3 t r4 z BUF_UNITS_def
        scp_v1_def [THEN arg_cong, of sizeof_thdr] del: append.simps)
  have t1: "track_iter scp_v1 scenario_image ?d [24, 0] 100000 1 io = Inr io" for io
    by (simp add: track_iter_def le32toh_def)
  have sz: "sizeof_dhdr scp_v1 = 16" by (simp add: scp_v1_def)
  have mx: "SCP_MAX_TRACKS scp_v1 = 168" by (simp add: scp_v1_def)
  have up: "[0 ..< Suc (Suc 0)] = [0, Suc 0]" by (simp add: upt_rec)
  show ?thesis
    by (simp add: main_def sz mx r1 d v r2 w htole32_def up t0 t1 del: upt_Suc)
qed

end
